theory Spec2Isabelle
  imports Complex_Main "HOL-Library.Sublist" "HOL-Library.Log_Nat"
begin

section \<open>JavaScript numbers\<close>

text \<open>
  A number of the source is an IEEE binary64 value: a finite value, which is a rational,
  one of the two infinities, or NaN. Negative zero is identified with zero: the source
  never divides by a value that can be zero and never looks at the sign of a zero.
\<close>

datatype jsnum = Num rat | PosInf | NegInf | NaN

text \<open>Rounding to the nearest integer, a tie going to the even one.\<close>

definition round_half_even :: "rat \<Rightarrow> int" where
  "round_half_even x =
     (let f = \<lfloor>x\<rfloor>; r = x - of_int f
      in if r < 1 / 2 then f else if 1 / 2 < r then f + 1 else if even f then f else f + 1)"

text \<open>The integer part of the binary logarithm of a positive rational.\<close>

definition floor_log2 :: "rat \<Rightarrow> int" where
  "floor_log2 x = (if 1 \<le> x then bitlen \<lfloor>x\<rfloor> - 1 else - bitlen (\<lceil>1 / x\<rceil> - 1))"

text \<open>
  The exponent of the last place of a binary64 significand (53 bits) for a value of the
  size of \<open>x\<close>; subnormal values share the least exponent, -1074.
\<close>

definition ulp_exp :: "rat \<Rightarrow> int" where
  "ulp_exp x = max (floor_log2 \<bar>x\<bar> - 52) (- 1074)"

text \<open>Rounding a rational to the nearest multiple of its last place, ties to even.\<close>

definition round64 :: "rat \<Rightarrow> rat" where
  "round64 x =
     (if x = 0 then 0
      else sgn x * (of_int (round_half_even (\<bar>x\<bar> / 2 powi ulp_exp x)) * 2 powi ulp_exp x))"

text \<open>
  The binary64 value of an exact result: rounded to nearest, and an infinity when the
  rounded value leaves the range (the greatest finite value is below \<open>2 ^ 1024\<close>).
\<close>

definition fl :: "rat \<Rightarrow> jsnum" where
  "fl x =
     (let r = round64 x
      in if 2 ^ 1024 \<le> r then PosInf else if r \<le> - (2 ^ 1024) then NegInf else Num r)"

fun js_neg :: "jsnum \<Rightarrow> jsnum" where
  "js_neg (Num x) = Num (- x)"
| "js_neg PosInf = NegInf"
| "js_neg NegInf = PosInf"
| "js_neg NaN = NaN"

text \<open>The operators \<^verbatim>\<open>+\<close>, \<^verbatim>\<open>*\<close> and \<^verbatim>\<open>/\<close> on numbers.\<close>

fun js_add :: "jsnum \<Rightarrow> jsnum \<Rightarrow> jsnum" where
  "js_add (Num x) (Num y) = fl (x + y)"
| "js_add NaN b = NaN"
| "js_add a NaN = NaN"
| "js_add PosInf NegInf = NaN"
| "js_add NegInf PosInf = NaN"
| "js_add PosInf b = PosInf"
| "js_add a PosInf = PosInf"
| "js_add NegInf b = NegInf"
| "js_add a NegInf = NegInf"

fun js_mul :: "jsnum \<Rightarrow> jsnum \<Rightarrow> jsnum" where
  "js_mul (Num x) (Num y) = fl (x * y)"
| "js_mul NaN b = NaN"
| "js_mul a NaN = NaN"
| "js_mul (Num x) b = (if x = 0 then NaN else if 0 < x then b else js_neg b)"
| "js_mul a (Num y) = (if y = 0 then NaN else if 0 < y then a else js_neg a)"
| "js_mul a b = (if a = b then PosInf else NegInf)"

fun js_div :: "jsnum \<Rightarrow> jsnum \<Rightarrow> jsnum" where
  "js_div (Num x) (Num y) =
     (if y = 0 then (if x = 0 then NaN else if 0 < x then PosInf else NegInf)
      else fl (x / y))"
| "js_div NaN b = NaN"
| "js_div a NaN = NaN"
| "js_div (Num x) b = Num 0"
| "js_div a (Num y) = (if 0 \<le> y then a else js_neg a)"
| "js_div a b = NaN"

text \<open>The comparisons \<^verbatim>\<open><\<close> and \<^verbatim>\<open><=\<close>: false as soon as one side is NaN.\<close>

fun js_lt :: "jsnum \<Rightarrow> jsnum \<Rightarrow> bool" where
  "js_lt (Num x) (Num y) = (x < y)"
| "js_lt NaN b = False"
| "js_lt a NaN = False"
| "js_lt a NegInf = False"
| "js_lt PosInf b = False"
| "js_lt a b = True"

fun js_le :: "jsnum \<Rightarrow> jsnum \<Rightarrow> bool" where
  "js_le (Num x) (Num y) = (x \<le> y)"
| "js_le NaN b = False"
| "js_le a NaN = False"
| "js_le NegInf b = True"
| "js_le a PosInf = True"
| "js_le a b = False"

text \<open>\<^verbatim>\<open>Math.max\<close> of two numbers.\<close>

definition js_max :: "jsnum \<Rightarrow> jsnum \<Rightarrow> jsnum" where
  "js_max a b = (if a = NaN \<or> b = NaN then NaN else if js_le a b then b else a)"

text \<open>The numbers that count as false: zero and NaN.\<close>

definition falsy :: "jsnum \<Rightarrow> bool" where
  "falsy v = (v = Num 0 \<or> v = NaN)"

text \<open>\<^verbatim>\<open>x || d\<close> on an optional number; \<open>None\<close> is an omitted (undefined) argument.\<close>

definition js_or :: "jsnum option \<Rightarrow> jsnum \<Rightarrow> jsnum" where
  "js_or x d = (case x of None \<Rightarrow> d | Some v \<Rightarrow> if falsy v then d else v)"

section \<open>TimingManager: data model\<close>

text \<open>One atomic animation of the timing table: \<^verbatim>\<open>{label, start, durn}\<close>.\<close>

record entry =
  label :: string
  start :: jsnum
  durn :: jsnum

text \<open>The constructor takes one entry or an array of entries.\<close>

datatype timing_input = One entry | Many "entry list"

text \<open>
  The three accepted values of \<^verbatim>\<open>timeUnit\<close>: \<^verbatim>\<open>"ms"\<close>, \<^verbatim>\<open>"s"\<close> and \<^verbatim>\<open>"m"\<close>. The
  constructor rejects every other string and the variable is never assigned again, so
  the closure only ever sees one of the three.
\<close>

datatype time_unit = Ms | S | M

text \<open>
  The source throws plain \<^verbatim>\<open>Error\<close> objects at three places, told apart here by a
  constructor each: the invalid time unit of the constructor, the empty registry of
  \<^verbatim>\<open>ensureNonEmpty\<close>, and the non-positive frame rate of \<^verbatim>\<open>frameApply\<close>.
\<close>

datatype error = ConfigurationError | InvalidStateError | InvalidArgumentError

text \<open>
  Modelled from the spec: the host's promise library is not part of the source. A
  promise made by \<^verbatim>\<open>Promise.delay(d).cancellable().then(...)\<close> is a cell of the host's
  store: the delay it was given, the entry its handler closes over, and whether it is
  still pending, has run its handler, or was cancelled.
\<close>

datatype status = Pending | Fired | Cancelled

record timer =
  delay :: jsnum
  anim :: entry
  status :: status

text \<open>
  The state: the four variables of the closure (\<^verbatim>\<open>timingInfo\<close>, \<^verbatim>\<open>timeUnit\<close>,
  \<^verbatim>\<open>callbacks\<close>, \<^verbatim>\<open>promises\<close>) and, of the host, the store of promises, the log of the
  calls made to actions (which promise called which action on which entry) and the
  lines written by \<^verbatim>\<open>console.warn\<close>. The array \<^verbatim>\<open>promises\<close> holds references to
  promises, here their addresses in the store. The object \<^verbatim>\<open>callbacks\<close> is the
  association list of its own properties, in insertion order; their values are
  functions, as the documentation of \<^verbatim>\<open>register\<close> requires.
\<close>

record 'f engine =
  timingInfo :: "entry list"
  timeUnit :: time_unit
  callbacks :: "(string \<times> 'f) list"
  promises :: "nat list"
  timers :: "timer list"
  calls :: "(nat \<times> 'f \<times> entry) list"
  console :: "string list"

section \<open>The constructor and the conversion to milliseconds\<close>

definition parse_unit :: "string \<Rightarrow> time_unit option" where
  "parse_unit s =
     (if s = ''ms'' then Some Ms
      else if s = ''s'' then Some S
      else if s = ''m'' then Some M
      else None)"

text \<open>
  \<^verbatim>\<open>timeUnit = timeUnit || "ms"\<close>: an omitted unit and the empty string are falsy.
\<close>

definition TimingManager :: "timing_input \<Rightarrow> string option \<Rightarrow> error + 'f engine" where
  "TimingManager timingInfo0 timeUnit0 =
     (let ti = (case timingInfo0 of Many xs \<Rightarrow> xs | One x \<Rightarrow> [x]);
          tu = (case timeUnit0 of None \<Rightarrow> ''ms'' | Some s \<Rightarrow> if s = [] then ''ms'' else s)
      in case parse_unit tu of
           None \<Rightarrow> Inl ConfigurationError
         | Some u \<Rightarrow>
             Inr \<lparr>timingInfo = ti, timeUnit = u, callbacks = [], promises = [],
                  timers = [], calls = [], console = []\<rparr>)"

text \<open>\<^verbatim>\<open>t\<close>, \<^verbatim>\<open>t * 1000\<close> and \<^verbatim>\<open>t * 60 * 1000\<close>: each product is rounded.\<close>

definition toMs :: "time_unit \<Rightarrow> jsnum \<Rightarrow> jsnum" where
  "toMs u t =
     (case u of
        Ms \<Rightarrow> t
      | S \<Rightarrow> js_mul t (Num 1000)
      | M \<Rightarrow> js_mul (js_mul t (Num 60)) (Num 1000))"

text \<open>The truth value of the optional flag \<^verbatim>\<open>overwrite\<close>.\<close>

definition truthy :: "bool option \<Rightarrow> bool" where
  "truthy b = (case b of None \<Rightarrow> False | Some v \<Rightarrow> v)"

section \<open>The registry\<close>

text \<open>
  \<^verbatim>\<open>callbacks\<close> is created as \<^verbatim>\<open>{}\<close>, so reading \<^verbatim>\<open>callbacks[l]\<close> finds, besides its
  own properties, the properties every object inherits. Their names depend on the host;
  these are the ones of the standard and of the browsers.
\<close>

definition object_prototype_names :: "string list" where
  "object_prototype_names =
     [''constructor'', ''toString'', ''toLocaleString'', ''valueOf'', ''hasOwnProperty'',
      ''isPrototypeOf'', ''propertyIsEnumerable'', ''__proto__'', ''__defineGetter__'',
      ''__defineSetter__'', ''__lookupGetter__'', ''__lookupSetter__'']"

text \<open>
  The value of \<^verbatim>\<open>callbacks[l]\<close>: a registered action, an inherited property (truthy,
  and not an action), or undefined.
\<close>

datatype 'f found = Own 'f | Inherited | Undefined

definition js_get :: "(string \<times> 'f) list \<Rightarrow> string \<Rightarrow> 'f found" where
  "js_get cbs l =
     (case map_of cbs l of
        Some f \<Rightarrow> Own f
      | None \<Rightarrow> if l \<in> set object_prototype_names then Inherited else Undefined)"

text \<open>
  \<^verbatim>\<open>callbacks[f] = v\<close>: an existing key keeps its place, a new one goes last. The keys
  of the argument of \<^verbatim>\<open>register\<close> are labels of animations; an argument with an own
  key \<^verbatim>\<open>__proto__\<close>, which no object literal has and whose assignment would replace the
  prototype of the registry, is not an input of the model.
\<close>

fun assign :: "string \<Rightarrow> 'f \<Rightarrow> (string \<times> 'f) list \<Rightarrow> (string \<times> 'f) list" where
  "assign k v [] = [(k, v)]"
| "assign k v (p # ps) = (if fst p = k then (k, v) # ps else p # assign k v ps)"

text \<open>
  The loop \<^verbatim>\<open>for (var f in fns) if (! callbacks[f] || overwrite) callbacks[f] = fns[f];\<close>
  over the keys of the argument, in order.
\<close>

fun register_loop :: "(string \<times> 'f) list \<Rightarrow> bool option \<Rightarrow> (string \<times> 'f) list \<Rightarrow> (string \<times> 'f) list" where
  "register_loop [] overwrite cbs = cbs"
| "register_loop ((f, v) # fns) overwrite cbs =
     register_loop fns overwrite
       (if js_get cbs f = Undefined \<or> truthy overwrite then assign f v cbs else cbs)"

definition register :: "(string \<times> 'f) list \<Rightarrow> bool option \<Rightarrow> 'f engine \<Rightarrow> 'f engine" where
  "register fns overwrite st = st\<lparr>callbacks := register_loop fns overwrite (callbacks st)\<rparr>"

text \<open>
  \<^verbatim>\<open>ensureNonEmpty\<close>: \<^verbatim>\<open>_.isEmpty(callbacks)\<close> holds when the object has no own key.
\<close>

definition ensureNonEmpty :: "'f engine \<Rightarrow> error option" where
  "ensureNonEmpty st = (if callbacks st = [] then Some InvalidStateError else None)"

section \<open>Scheduling\<close>

text \<open>
  \<^verbatim>\<open>promises.push(Promise.delay(d).cancellable().then(function() {callbacks[anim.label](anim);}))\<close>:
  the host allocates a pending promise, and its reference is pushed on \<^verbatim>\<open>promises\<close>.
  The handler closes over \<^verbatim>\<open>anim\<close> and over the variable \<^verbatim>\<open>callbacks\<close>, not over the
  function registered at that moment.
\<close>

definition schedule :: "jsnum \<Rightarrow> entry \<Rightarrow> 'f engine \<Rightarrow> 'f engine" where
  "schedule d a st =
     st\<lparr>promises := promises st @ [length (timers st)],
        timers := timers st @ [\<lparr>delay = d, anim = a, status = Pending\<rparr>]\<rparr>"

definition warn :: "string \<Rightarrow> 'f engine \<Rightarrow> 'f engine" where
  "warn msg st = st\<lparr>console := console st @ [msg]\<rparr>"

text \<open>
  The body of the \<^verbatim>\<open>_.each\<close> of \<^verbatim>\<open>play\<close>, for one entry; \<^verbatim>\<open>if (callbacks[anim.label])\<close>
  passes for a registered label and for an inherited name.
\<close>

definition play_one :: "jsnum \<Rightarrow> 'f engine \<Rightarrow> entry \<Rightarrow> 'f engine" where
  "play_one t st a =
     (if js_get (callbacks st) (label a) \<noteq> Undefined
      then schedule (js_add t (toMs (timeUnit st) (start a))) a st
      else warn (''Ignoring playback of animation: '' @ label a) st)"

text \<open>
  \<^verbatim>\<open>play\<close> returns the exception thrown, if any, and the state it leaves.
  \<^verbatim>\<open>Promise.all(promises)\<close> builds a promise that is dropped at once.
\<close>

definition play :: "jsnum option \<Rightarrow> 'f engine \<Rightarrow> error option \<times> 'f engine" where
  "play t0 st =
     (case ensureNonEmpty st of
        Some e \<Rightarrow> (Some e, st)
      | None \<Rightarrow>
          (let t = js_or t0 (Num 0)
           in (None, foldl (play_one t) st (timingInfo st))))"

section \<open>The active-interval query\<close>

text \<open>\<^verbatim>\<open>t >= toMs(info.start) && t < toMs(info.start + info.durn)\<close>, after \<^verbatim>\<open>t = t || 0\<close>.\<close>

definition frameTiming :: "'f engine \<Rightarrow> jsnum option \<Rightarrow> entry list" where
  "frameTiming st t0 =
     (let t = js_or t0 (Num 0)
      in filter (\<lambda>info. js_le (toMs (timeUnit st) (start info)) t \<and>
                        js_lt t (toMs (timeUnit st) (js_add (start info) (durn info))))
           (timingInfo st))"

section \<open>Frame-sampled playback\<close>

text \<open>
  The first loop of \<^verbatim>\<open>frameApply\<close>:
  \<^verbatim>\<open>for (i = 0; (i * increment) < durn; i++) times.push(t + (i * increment));\<close>
  The loop need not end (the increment can be 0), so not returning is \<open>None\<close>.
\<close>

partial_function (option) times_loop :: "jsnum \<Rightarrow> jsnum \<Rightarrow> jsnum \<Rightarrow> jsnum \<Rightarrow> jsnum list \<Rightarrow> jsnum list option" where
  "times_loop t increment dmax i tms =
     (if js_lt (js_mul i increment) dmax
      then times_loop t increment dmax (js_add i (Num 1)) (tms @ [js_add t (js_mul i increment)])
      else Some tms)"

declare times_loop.simps [code]

text \<open>\<^verbatim>\<open>_.last(times)\<close> is undefined on an empty array, and \<^verbatim>\<open>i < undefined\<close> is false.\<close>

definition js_last :: "jsnum list \<Rightarrow> jsnum option" where
  "js_last tms = (if tms = [] then None else Some (last tms))"

definition js_lt_undef :: "jsnum \<Rightarrow> jsnum option \<Rightarrow> bool" where
  "js_lt_undef i b = (case b of None \<Rightarrow> False | Some l \<Rightarrow> js_lt i l)"

text \<open>\<^verbatim>\<open>playFrame(anim, t)\<close>: as the body of \<^verbatim>\<open>play\<close>, with the delay given in milliseconds.\<close>

definition playFrame :: "entry \<Rightarrow> jsnum \<Rightarrow> 'f engine \<Rightarrow> 'f engine" where
  "playFrame a t st =
     (if js_get (callbacks st) (label a) \<noteq> Undefined
      then schedule t a st
      else warn (''Ignoring playback of animation: '' @ label a) st)"

text \<open>
  The second loop:
  \<^verbatim>\<open>for (i = t; i < _.last(times); i += increment) _.each(this.frameTiming(i), singleTiming(i));\<close>
  An array is truthy, so the test of \<^verbatim>\<open>currentTiming\<close> always passes. The loop does not
  end when \<^verbatim>\<open>i + increment\<close> rounds back to \<^verbatim>\<open>i\<close>.
\<close>

partial_function (option) frames_loop :: "jsnum \<Rightarrow> jsnum option \<Rightarrow> jsnum \<Rightarrow> 'f engine \<Rightarrow> 'f engine option" where
  "frames_loop increment lst i st =
     (if js_lt_undef i lst
      then frames_loop increment lst (js_add i increment)
             (foldl (\<lambda>s info. playFrame info i s) st (frameTiming st (Some i)))
      else Some st)"

declare frames_loop.simps [code]

text \<open>
  \<^verbatim>\<open>frameApply(fps, t)\<close>. The result is \<open>None\<close> when the call does not return; otherwise
  the exception thrown, if any, and the state the call leaves.
\<close>

definition frameApply :: "jsnum option \<Rightarrow> jsnum option \<Rightarrow> 'f engine \<Rightarrow> (error option \<times> 'f engine) option" where
  "frameApply fps0 t0 st =
     (case ensureNonEmpty st of
        Some e \<Rightarrow> Some (Some e, st)
      | None \<Rightarrow>
          (let t = toMs (timeUnit st) (js_or t0 (Num 0));
               fps = js_or fps0 (Num 10)
           in if js_le fps (Num 0) then Some (Some InvalidArgumentError, st)
              else
                (let increment = js_div (Num 1000) fps;
                     dmax = foldl (\<lambda>d info. js_max d (toMs (timeUnit st)
                                                 (js_add (start info) (durn info))))
                              (Num 0) (timingInfo st)
                 in case times_loop t increment dmax (Num 0) [] of
                      None \<Rightarrow> None
                    | Some tms \<Rightarrow>
                        (case frames_loop increment (js_last tms) t st of
                           None \<Rightarrow> None
                         | Some st' \<Rightarrow> Some (None, st')))))"

section \<open>Cancellation and the host\<close>

text \<open>
  Modelled from the spec: the promise library is not in the source. \<^verbatim>\<open>p.cancel(reason)\<close>
  on a pending promise cancels it, so that its handler does not run; on a promise that
  has fired or was cancelled it does nothing.
\<close>

definition cancel_timer :: "timer list \<Rightarrow> nat \<Rightarrow> timer list" where
  "cancel_timer ts h =
     (if h < length ts \<and> status (ts ! h) = Pending
      then ts[h := (ts ! h)\<lparr>status := Cancelled\<rparr>]
      else ts)"

definition cancel :: "'f engine \<Rightarrow> 'f engine" where
  "cancel st = st\<lparr>timers := foldl cancel_timer (timers st) (promises st), promises := []\<rparr>"

text \<open>
  Modelled from the spec: the host runs the handler of a pending promise once its delay
  has passed. The handler is \<^verbatim>\<open>function() { callbacks[anim.label](anim); }\<close>: it reads
  the registry when it runs, and calls the action it finds. When it finds an inherited
  property or nothing, no action is called (the call runs a built-in or throws inside
  the handler).
\<close>

definition fire :: "nat \<Rightarrow> 'f engine \<Rightarrow> 'f engine" where
  "fire h st =
     (if h < length (timers st) \<and> status (timers st ! h) = Pending
      then
        (let a = anim (timers st ! h);
             st' = st\<lparr>timers := (timers st)[h := (timers st ! h)\<lparr>status := Fired\<rparr>]\<rparr>
         in case js_get (callbacks st) (label a) of
              Own f \<Rightarrow> st'\<lparr>calls := calls st @ [(h, f, a)]\<rparr>
            | Inherited \<Rightarrow> st'
            | Undefined \<Rightarrow> st')
      else st)"

text \<open>
  What can happen to an engine: a call of one of its methods that change the state, or
  the host firing a promise. A call that throws leaves the state it had reached; a
  call that does not return ends the run without a state.
\<close>

datatype 'f event =
    Register "(string \<times> 'f) list" "bool option"
  | Play "jsnum option"
  | FrameApply "jsnum option" "jsnum option"
  | Cancel
  | Fire nat

fun exec :: "'f event \<Rightarrow> 'f engine \<Rightarrow> 'f engine option" where
  "exec (Register fns overwrite) st = Some (register fns overwrite st)"
| "exec (Play t) st = Some (snd (play t st))"
| "exec (FrameApply fps t) st = map_option snd (frameApply fps t st)"
| "exec Cancel st = Some (cancel st)"
| "exec (Fire h) st = Some (fire h st)"

fun run :: "'f event list \<Rightarrow> 'f engine \<Rightarrow> 'f engine option" where
  "run [] st = Some st"
| "run (ev # evs) st = (case exec ev st of None \<Rightarrow> None | Some st' \<Rightarrow> run evs st')"

fun is_frameApply :: "'f event \<Rightarrow> bool" where
  "is_frameApply (FrameApply fps t) = True"
| "is_frameApply ev = False"

section \<open>Invariants of the store, and example engines\<close>

text \<open>Every pending promise of the store is referenced from \<^verbatim>\<open>promises\<close>.\<close>

definition tracked :: "'f engine \<Rightarrow> bool" where
  "tracked st =
     (\<forall>h < length (timers st). status (timers st ! h) = Pending \<longrightarrow> h \<in> set (promises st))"

text \<open>
  None of the first \<open>n\<close> promises of the store is pending, and the calls made since the
  log was \<open>old\<close> all come from later promises.
\<close>

definition settled :: "nat \<Rightarrow> (nat \<times> 'f \<times> entry) list \<Rightarrow> 'f engine \<Rightarrow> bool" where
  "settled n old st =
     (n \<le> length (timers st) \<and>
      (\<forall>h < n. status (timers st ! h) \<noteq> Pending) \<and>
      (\<exists>cs. calls st = old @ cs \<and> (\<forall>c \<in> set cs. n \<le> fst c)))"

text \<open>
  The tables \<^verbatim>\<open>[{label:"X", start:0, durn:1}]\<close> and \<^verbatim>\<open>[{label:"Y", start:0, durn:1}]\<close>,
  the engine built from a one-entry table in seconds, the same engine once an action
  (numbered 1) is registered for the label of its entry, and an engine with two entries.
\<close>

definition entryX :: entry where
  "entryX = \<lparr>label = ''X'', start = Num 0, durn = Num 1\<rparr>"

definition entryY :: entry where
  "entryY = \<lparr>label = ''Y'', start = Num 0, durn = Num 1\<rparr>"

definition engine0 :: "entry \<Rightarrow> nat engine" where
  "engine0 a = \<lparr>timingInfo = [a], timeUnit = S, callbacks = [], promises = [],
                 timers = [], calls = [], console = []\<rparr>"

definition engine1 :: "entry \<Rightarrow> nat engine" where
  "engine1 a = \<lparr>timingInfo = [a], timeUnit = S, callbacks = [(label a, 1)], promises = [],
                 timers = [], calls = [], console = []\<rparr>"

definition entryA :: entry where
  "entryA = \<lparr>label = ''A'', start = Num 0, durn = Num 1\<rparr>"

definition entryB :: entry where
  "entryB = \<lparr>label = ''B'', start = Num 1, durn = Num 2\<rparr>"

definition engine2 :: "nat engine" where
  "engine2 = \<lparr>timingInfo = [entryA, entryB], timeUnit = S, callbacks = [(''A'', 1)],
               promises = [], timers = [], calls = [], console = []\<rparr>"

text \<open>An entry of duration 0, and an entry whose duration is lost in its start.\<close>

definition entryZ :: entry where
  "entryZ = \<lparr>label = ''Z'', start = Num 5, durn = Num 0\<rparr>"

definition entryW :: entry where
  "entryW = \<lparr>label = ''W'', start = Num (10 ^ 16), durn = Num 1\<rparr>"

definition engine_ms :: "entry \<Rightarrow> nat engine" where
  "engine_ms a = \<lparr>timingInfo = [a], timeUnit = Ms, callbacks = [], promises = [],
                   timers = [], calls = [], console = []\<rparr>"

section \<open>Rounding keeps the order\<close>

lemma rhe_bounds: "\<lfloor>x\<rfloor> \<le> round_half_even x \<and> round_half_even x \<le> \<lfloor>x\<rfloor> + 1"
  by (simp add: round_half_even_def Let_def)

lemma rhe_of_int: "round_half_even (of_int n) = n"
  by (simp add: round_half_even_def Let_def)

lemma rhe_mono:
  assumes "x \<le> y"
  shows "round_half_even x \<le> round_half_even y"
proof (cases "\<lfloor>x\<rfloor> = \<lfloor>y\<rfloor>")
  case False
  then have "\<lfloor>x\<rfloor> + 1 \<le> \<lfloor>y\<rfloor>"
    using floor_mono[OF assms] by linarith
  then show ?thesis
    using rhe_bounds[of x] rhe_bounds[of y] by linarith
next
  case True
  then have "x - of_int \<lfloor>x\<rfloor> \<le> y - of_int \<lfloor>y\<rfloor>"
    using assms by simp
  then show ?thesis
    using True by (auto simp: round_half_even_def Let_def)
qed

lemma rhe_le_int: "x \<le> of_int n \<Longrightarrow> round_half_even x \<le> n"
  using rhe_mono[of x "of_int n"] by (simp add: rhe_of_int)

lemma rhe_ge_int: "of_int n \<le> x \<Longrightarrow> n \<le> round_half_even x"
  using rhe_mono[of "of_int n" x] by (simp add: rhe_of_int)

lemma floor_log2_bounds:
  assumes "0 < x"
  shows "2 powi floor_log2 x \<le> x \<and> x < 2 powi (floor_log2 x + 1)"
proof (cases "1 \<le> x")
  case True
  define n where "n = \<lfloor>x\<rfloor>"
  have n: "0 < n" using True by (simp add: n_def)
  have b: "1 \<le> bitlen n" using n bitlen_eq_zero_iff[of n] bitlen_nonneg[of n] by linarith
  from bitlen_bounds[OF n] have lo: "2 ^ nat (bitlen n - 1) \<le> n" and hi: "n < 2 ^ nat (bitlen n)"
    by auto
  have "(2::rat) powi (bitlen n - 1) = of_int (2 ^ nat (bitlen n - 1))"
    using b by (simp add: power_int_def)
  also have "\<dots> \<le> of_int n" using lo by (simp only: of_int_le_iff)
  also have "\<dots> \<le> x" by (simp add: n_def)
  finally have 1: "2 powi (bitlen n - 1) \<le> x" .
  have "n + 1 \<le> 2 ^ nat (bitlen n)" using hi by simp
  then have "(of_int (n + 1) :: rat) \<le> of_int (2 ^ nat (bitlen n))" by (simp only: of_int_le_iff)
  moreover have "x < of_int (n + 1)" using floor_correct[of x] by (simp add: n_def)
  moreover have "(2::rat) powi (bitlen n - 1 + 1) = of_int (2 ^ nat (bitlen n))"
    using b by (simp add: power_int_def)
  ultimately have 2: "x < 2 powi (bitlen n - 1 + 1)" by simp
  from 1 2 True show ?thesis by (simp add: floor_log2_def n_def)
next
  case False
  define c where "c = \<lceil>1 / x\<rceil>"
  have x1: "1 < 1 / x" using False assms by simp
  then have c2: "2 \<le> c" by (simp add: c_def le_ceiling_iff) 
  define j where "j = bitlen (c - 1)"
  have c1: "0 < c - 1" using c2 by simp
  have j1: "1 \<le> j" using c1 bitlen_eq_zero_iff[of "c - 1"] bitlen_nonneg[of "c - 1"]
    by (simp add: j_def)
  from bitlen_bounds[OF c1] have lo: "2 ^ nat (j - 1) \<le> c - 1" and hi: "c - 1 < 2 ^ nat j"
    by (auto simp: j_def)
  have up: "1 / x \<le> of_int c" by (simp add: c_def)
  have dn: "of_int (c - 1) < 1 / x" unfolding c_def
    by (metis ceiling_correct diff_less_eq of_int_1 of_int_diff)
  have "c \<le> 2 ^ nat j" using hi by simp
  then have "(of_int c :: rat) \<le> of_int (2 ^ nat j)" by (simp only: of_int_le_iff)
  also have "\<dots> = 2 ^ nat j" by simp
  finally have a: "1 / x \<le> 2 ^ nat j" using up by linarith
  have "(2::rat) ^ nat (j - 1) = of_int (2 ^ nat (j - 1))" by simp
  also have "\<dots> \<le> of_int (c - 1)" using lo by (simp only: of_int_le_iff)
  finally have b: "2 ^ nat (j - 1) < 1 / x" using dn by linarith
  have pj: "(2::rat) powi (- j) = 1 / 2 ^ nat j"
    using j1 by (simp add: power_int_def field_simps)
  have pj1: "(2::rat) powi (- j + 1) = 1 / 2 ^ nat (j - 1)"
    using j1 by (simp add: power_int_def field_simps)
  have 1: "2 powi (- j) \<le> x"
    using a assms unfolding pj by (simp add: field_simps)
  have 2: "x < 2 powi (- j + 1)"
    using b assms unfolding pj1 by (simp add: field_simps)
  from 1 2 False show ?thesis by (simp add: floor_log2_def c_def j_def)
qed

lemma floor_log2_mono:
  assumes "0 < x" "x \<le> y"
  shows "floor_log2 x \<le> floor_log2 y"
proof (rule ccontr)
  assume "\<not> floor_log2 x \<le> floor_log2 y"
  then have "floor_log2 y + 1 \<le> floor_log2 x" by simp
  then have "(2::rat) powi (floor_log2 y + 1) \<le> 2 powi floor_log2 x"
    by (intro power_int_increasing) simp_all
  moreover have "y < 2 powi (floor_log2 y + 1)"
    using floor_log2_bounds[of y] assms by simp
  moreover have "2 powi floor_log2 x \<le> x"
    using floor_log2_bounds[of x] assms by simp
  ultimately show False using assms by linarith
qed


lemma ulp_exp_mono: "0 < x \<Longrightarrow> x \<le> y \<Longrightarrow> ulp_exp x \<le> ulp_exp y"
  using floor_log2_mono[of x y] by (simp add: ulp_exp_def)

lemma two_powi_pos [simp]: "0 < (2::rat) powi e"
  by (simp add: power_int_def)

lemma round64_pos_upper:
  assumes "0 < x"
  shows "round64 x \<le> 2 powi (ulp_exp x + 53)"
proof -
  define e where "e = ulp_exp x"
  have "floor_log2 x + 1 \<le> e + 53" using assms by (simp add: e_def ulp_exp_def)
  then have "(2::rat) powi (floor_log2 x + 1) \<le> 2 powi (e + 53)"
    by (intro power_int_increasing) simp_all
  then have "x < 2 powi (e + 53)"
    using floor_log2_bounds[OF assms] by linarith
  also have "\<dots> = 2 powi e * 2 ^ 53" by (simp add: power_int_add)
  finally have "x / 2 powi e < 2 ^ 53" by (simp add: field_simps)
  then have "x / 2 powi e \<le> of_int (2 ^ 53)" by simp
  then have "round_half_even (x / 2 powi e) \<le> 2 ^ 53" by (rule rhe_le_int)
  then have "(of_int (round_half_even (x / 2 powi e)) :: rat) \<le> of_int (2 ^ 53)"
    by (simp only: of_int_le_iff)
  then have "(of_int (round_half_even (x / 2 powi e)) :: rat) \<le> 2 ^ 53" by simp
  from mult_right_mono[OF this, of "2 powi e"]
  have "(of_int (round_half_even (x / 2 powi e)) :: rat) * 2 powi e \<le> 2 ^ 53 * 2 powi e"
    by simp
  also have "\<dots> = 2 powi (e + 53)" by (simp add: power_int_add)
  finally show ?thesis using assms by (simp add: round64_def e_def)
qed

lemma round64_pos_lower:
  assumes "0 < x" and "- 1074 < ulp_exp x"
  shows "2 powi (ulp_exp x + 52) \<le> round64 x"
proof -
  define e where "e = ulp_exp x"
  have e: "e + 52 = floor_log2 x" using assms by (simp add: e_def ulp_exp_def)
  have "2 powi e * 2 ^ 52 = (2::rat) powi (e + 52)" by (simp add: power_int_add)
  also have "\<dots> \<le> x" using floor_log2_bounds[OF assms(1)] e by simp
  finally have "of_int (2 ^ 52) \<le> x / 2 powi e" by (simp add: field_simps)
  then have "2 ^ 52 \<le> round_half_even (x / 2 powi e)" by (rule rhe_ge_int)
  then have "(of_int (2 ^ 52) :: rat) \<le> of_int (round_half_even (x / 2 powi e))"
    by (simp only: of_int_le_iff)
  then have "(2 ^ 52 :: rat) \<le> of_int (round_half_even (x / 2 powi e))" by simp
  from mult_right_mono[OF this, of "2 powi e"]
  have "(2 ^ 52 :: rat) * 2 powi e \<le> of_int (round_half_even (x / 2 powi e)) * 2 powi e"
    by simp
  moreover have "2 ^ 52 * 2 powi e = (2::rat) powi (e + 52)" by (simp add: power_int_add)
  ultimately have "(2::rat) powi (e + 52) \<le> of_int (round_half_even (x / 2 powi e)) * 2 powi e"
    by linarith
  moreover have "round64 x = of_int (round_half_even (x / 2 powi e)) * 2 powi e"
    using assms by (simp add: round64_def e_def)
  ultimately show ?thesis by (simp add: e_def)
qed

lemma round64_pos_mono:
  assumes "0 < x" "x \<le> y"
  shows "round64 x \<le> round64 y"
proof (cases "ulp_exp x = ulp_exp y")
  case True
  have y: "0 < y" using assms by simp
  have "x / 2 powi ulp_exp y \<le> y / 2 powi ulp_exp y"
    using assms by (simp add: divide_right_mono)
  then have "round_half_even (x / 2 powi ulp_exp y) \<le> round_half_even (y / 2 powi ulp_exp y)"
    by (rule rhe_mono)
  then have "(of_int (round_half_even (x / 2 powi ulp_exp y)) :: rat)
      \<le> of_int (round_half_even (y / 2 powi ulp_exp y))"
    by (simp only: of_int_le_iff)
  then show ?thesis
    using assms y True by (simp add: round64_def mult_right_mono)
next
  case False
  have y: "0 < y" using assms by simp
  from False ulp_exp_mono[OF assms] have lt: "ulp_exp x + 53 \<le> ulp_exp y + 52" by simp
  moreover have "- 1074 \<le> ulp_exp x" by (simp add: ulp_exp_def)
  ultimately have "- 1074 < ulp_exp y" using False ulp_exp_mono[OF assms] by linarith
  then have "2 powi (ulp_exp y + 52) \<le> round64 y" by (rule round64_pos_lower[OF y])
  moreover have "(2::rat) powi (ulp_exp x + 53) \<le> 2 powi (ulp_exp y + 52)"
    using lt by (intro power_int_increasing) simp_all
  ultimately show ?thesis using round64_pos_upper[OF assms(1)] by linarith
qed

lemma rhe_nonneg: "0 \<le> x \<Longrightarrow> 0 \<le> round_half_even x"
  using rhe_ge_int[of 0 x] by simp

lemma round64_nonneg: "0 \<le> x \<Longrightarrow> 0 \<le> round64 x"
  by (simp add: round64_def rhe_nonneg sgn_if)

lemma ulp_exp_minus [simp]: "ulp_exp (- x) = ulp_exp x"
  by (simp add: ulp_exp_def)

lemma round64_minus: "round64 (- x) = - round64 x"
  by (simp add: round64_def sgn_minus)

lemma round64_mono:
  assumes "x \<le> y"
  shows "round64 x \<le> round64 y"
proof -
  consider "0 < x" | "x \<le> 0" "0 \<le> y" | "y < 0" using assms by linarith
  then show ?thesis
  proof cases
    case 1
    then show ?thesis using assms by (rule round64_pos_mono)
  next
    case 2
    have "round64 x = - round64 (- x)" by (simp add: round64_minus)
    moreover have "0 \<le> round64 (- x)" using 2 by (intro round64_nonneg) simp
    ultimately show ?thesis using round64_nonneg[OF 2(2)] by linarith
  next
    case 3
    have "round64 (- y) \<le> round64 (- x)"
      using 3 assms by (intro round64_pos_mono) simp_all
    then show ?thesis by (simp add: round64_minus)
  qed
qed

section \<open>Evaluating and comparing numbers\<close>

lemma floor_rat_numeral_div:
  "\<lfloor>numeral a / numeral b :: rat\<rfloor> = numeral a div numeral b"
  by (metis floor_divide_of_int_eq of_int_numeral)

lemma ceiling_rat_numeral_div:
  "\<lceil>numeral a / numeral b :: rat\<rceil> = - (- numeral a div numeral b)"
  using ceiling_divide_eq_div[of "numeral a" "numeral b", where ?'a = rat] by simp

lemmas fl_eval = fl_def round64_def ulp_exp_def round_half_even_def floor_log2_def Let_def
  compute_bitlen floor_rat_numeral_div ceiling_rat_numeral_div

lemma fl_vals:
  "fl 0 = Num 0" "fl 1 = Num 1" "fl 2 = Num 2" "fl 3 = Num 3" "fl 4 = Num 4" "fl 5 = Num 5"
  "fl 6 = Num 6" "fl 7 = Num 7" "fl 8 = Num 8" "fl 9 = Num 9" "fl 10 = Num 10"
  "fl 100 = Num 100" "fl 200 = Num 200" "fl 300 = Num 300" "fl 400 = Num 400"
  "fl 500 = Num 500" "fl 600 = Num 600" "fl 700 = Num 700" "fl 800 = Num 800"
  "fl 900 = Num 900" "fl 1000 = Num 1000" "fl 2000 = Num 2000" "fl 3000 = Num 3000"
  "fl 60 = Num 60" "fl 120 = Num 120" "fl 180 = Num 180" "fl 60000 = Num 60000"
  "fl 120000 = Num 120000" "fl 180000 = Num 180000" "fl 300000 = Num 300000"
  by (simp_all add: fl_eval)

lemma fl_not_NaN [simp]: "fl x \<noteq> NaN"
  by (simp add: fl_def Let_def)

lemma js_le_PosInf [simp]: "js_le a PosInf = (a \<noteq> NaN)"
  by (cases a) simp_all

lemma js_le_NegInf [simp]: "js_le NegInf b = (b \<noteq> NaN)"
  by (cases b) simp_all

lemma fl_mono: "x \<le> y \<Longrightarrow> js_le (fl x) (fl y)"
  using round64_mono[of x y] by (auto simp: fl_def Let_def)

lemma js_mul_pos_mono:
  assumes "0 < c" and "js_le a b"
  shows "js_le (js_mul a (Num c)) (js_mul b (Num c))"
proof (cases a)
  case (Num x)
  then show ?thesis
    using assms by (cases b) (simp_all add: fl_mono)
next
  case PosInf
  then show ?thesis using assms by (cases b) simp_all
next
  case NegInf
  then show ?thesis using assms by (cases b) simp_all
next
  case NaN
  then show ?thesis using assms by simp
qed

lemma toMs_mono: "js_le a b \<Longrightarrow> js_le (toMs u a) (toMs u b)"
  by (cases u) (simp_all add: toMs_def js_mul_pos_mono)


lemma js_lt_irrefl [simp]: "\<not> js_lt a a"
  by (cases a) simp_all



section \<open>What playback keeps\<close>

lemma play_one_playFrame:
  "play_one t st a = playFrame a (js_add t (toMs (timeUnit st) (start a))) st"
  by (simp add: play_one_def playFrame_def)

lemma foldl_playFrame_inv:
  assumes "\<And>a d s. P s \<Longrightarrow> P (playFrame a d s)" and "P s"
  shows "P (foldl (\<lambda>s info. playFrame info d s) s xs)"
  using assms(2) by (induction xs arbitrary: s) (simp_all add: assms(1))

lemma play_inv:
  assumes step: "\<And>a d s. P s \<Longrightarrow> P (playFrame a d s)"
    and init: "P st"
  shows "P (snd (play t st))"
proof -
  have "P (foldl (play_one d) s xs)" if "P s" for d s xs
    using that by (induction xs arbitrary: s) (simp_all add: play_one_playFrame step)
  then show ?thesis
    using init by (simp add: play_def split: option.splits)
qed

text \<open>
  When the second loop returns, the state it returns has every property that the
  state it started from had and that scheduling one frame keeps.
\<close>

lemma frames_loop_inv:
  assumes step: "\<And>a d s. P s \<Longrightarrow> P (playFrame a d s)"
    and ret: "frames_loop inc lst i st = Some st'"
    and init: "P st"
  shows "P st'"
proof -
  have "P st \<longrightarrow> P st'"
  proof (rule frames_loop.raw_induct
      [where P = "\<lambda>inc lst i st st'. P st \<longrightarrow> P st'", OF _ ret])
    fix f inc lst i st st'
    assume ih: "\<And>inc lst i st st'. f inc lst i st = Some st' \<Longrightarrow> P st \<longrightarrow> P st'"
      and eq: "(if js_lt_undef i lst
                then f inc lst (js_add i inc)
                       (foldl (\<lambda>s info. playFrame info i s) st (frameTiming st (Some i)))
                else Some st) = Some st'"
    show "P st \<longrightarrow> P st'"
    proof
      assume "P st"
      show "P st'"
      proof (cases "js_lt_undef i lst")
        case True
        with eq have "f inc lst (js_add i inc)
            (foldl (\<lambda>s info. playFrame info i s) st (frameTiming st (Some i))) = Some st'"
          by simp
        from ih[OF this] foldl_playFrame_inv[of P, OF step \<open>P st\<close>] show ?thesis by blast
      next
        case False
        with eq \<open>P st\<close> show ?thesis by simp
      qed
    qed
  qed
  with init show ?thesis by simp
qed

lemma frameApply_inv:
  assumes step: "\<And>a d s. P s \<Longrightarrow> P (playFrame a d s)"
    and ret: "frameApply fps t st = Some (e, st')"
    and init: "P st"
  shows "P st'"
proof (cases "ensureNonEmpty st = None \<and> \<not> js_le (js_or fps (Num 10)) (Num 0)")
  case False
  then have "st' = st"
    using ret by (auto simp: frameApply_def Let_def split: option.splits)
  with init show ?thesis by simp
next
  case True
  then obtain inc lst i where "frames_loop inc lst i st = Some st'"
    using ret by (auto simp: frameApply_def Let_def split: option.splits)
  then show ?thesis using frames_loop_inv[of P, OF step _ init] by blast
qed

lemma frameApply_error_cases:
  "frameApply fps t st = Some (e, st') \<Longrightarrow>
   e = (if callbacks st = [] then Some InvalidStateError
        else if js_le (js_or fps (Num 10)) (Num 0) then Some InvalidArgumentError else None)"
  by (auto simp: frameApply_def ensureNonEmpty_def Let_def split: if_splits option.splits)

lemma exec_inv:
  assumes "\<And>a d s. P s \<Longrightarrow> P (playFrame a d s)"
    and "\<And>fns ow s. P s \<Longrightarrow> P (register fns ow s)"
    and "\<And>s. P s \<Longrightarrow> P (cancel s)"
    and "\<And>h s. P s \<Longrightarrow> P (fire h s)"
    and "exec ev st = Some st'"
    and "P st"
  shows "P st'"
proof (cases ev)
  case (FrameApply fps t)
  then obtain e where "frameApply fps t st = Some (e, st')"
    using assms(5) by auto
  then show ?thesis using assms(1,6) frameApply_inv[of P fps t st e st'] by blast
next
  case (Play t)
  then show ?thesis using play_inv[of P st t] assms(1,5,6) by auto
qed (use assms in auto)

text \<open>A run that returns keeps what each event keeps.\<close>

lemma run_inv:
  assumes "\<And>a d s. P s \<Longrightarrow> P (playFrame a d s)"
    and "\<And>fns ow s. P s \<Longrightarrow> P (register fns ow s)"
    and "\<And>s. P s \<Longrightarrow> P (cancel s)"
    and "\<And>h s. P s \<Longrightarrow> P (fire h s)"
    and "run evs st = Some st'"
    and "P st"
  shows "P st'"
  using assms(5,6)
proof (induction evs arbitrary: st)
  case Nil
  then show ?case by simp
next
  case (Cons ev evs)
  then obtain s1 where s1: "exec ev st = Some s1" "run evs s1 = Some st'"
    by (auto split: option.splits)
  have "P s1" using exec_inv[of P ev st s1] assms(1-4) s1(1) Cons.prems(2) by blast
  with Cons.IH[OF s1(2)] show ?case .
qed

text \<open>Only \<^verbatim>\<open>frameApply\<close> can fail to return.\<close>

lemma run_returns:
  "\<not> list_ex is_frameApply evs \<Longrightarrow> \<exists>st'. run evs st = Some st'"
proof (induction evs arbitrary: st)
  case Nil
  then show ?case by simp
next
  case (Cons ev evs)
  then obtain s1 where "exec ev st = Some s1" by (cases ev) auto
  then show ?case using Cons by auto
qed

section \<open>Evaluation on the example engines\<close>

lemmas eval_defs = entryX_def entryY_def entryA_def entryB_def entryZ_def entryW_def engine0_def
  engine1_def engine2_def engine_ms_def
  TimingManager_def parse_unit_def register_def play_def play_one_def ensureNonEmpty_def
  js_or_def falsy_def toMs_def schedule_def warn_def truthy_def frameTiming_def playFrame_def
  js_last_def js_lt_undef_def js_max_def cancel_def cancel_timer_def fire_def js_get_def
  object_prototype_names_def fl_vals

lemma engine1_sel:
  "timingInfo (engine1 a) = [a]" "timeUnit (engine1 a) = S" "callbacks (engine1 a) = [(label a, 1)]"
  "promises (engine1 a) = []" "timers (engine1 a) = []" "calls (engine1 a) = []"
  by (simp_all add: engine1_def)

section \<open>Playback on the example tables\<close>

text \<open>
  C1. The engine is built from \<^verbatim>\<open>[{label:"X", start:0, durn:1}]\<close> in seconds and an
  action is registered for X. \<^verbatim>\<open>play(0)\<close> schedules exactly one promise, with delay
  0 ms. The claim has \<^verbatim>\<open>play(2)\<close> schedule it at 2000 ms; the source adds the argument
  to \<^verbatim>\<open>toMs(anim.start)\<close> without converting it, and the one promise of \<^verbatim>\<open>play(2)\<close> has
  delay 2 ms.
\<close>

theorem play_delay_not_converted:
  "TimingManager (Many [entryX]) (Some ''s'') = Inr (engine0 entryX) \<and>
   register [(''X'', 1)] None (engine0 entryX) = engine1 entryX \<and>
   play (Some (Num 0)) (engine1 entryX) =
     (None, (engine1 entryX)\<lparr>promises := [0],
              timers := [\<lparr>delay = Num 0, anim = entryX, status = Pending\<rparr>]\<rparr>) \<and>
   play (Some (Num 2)) (engine1 entryX) =
     (None, (engine1 entryX)\<lparr>promises := [0],
              timers := [\<lparr>delay = Num 2, anim = entryX, status = Pending\<rparr>]\<rparr>)"
  by (simp add: eval_defs)

text \<open>
  C2. The engine is built from \<^verbatim>\<open>[{label:"Y", start:0, durn:1}]\<close> in seconds and an
  action is registered for Y. The claim has \<^verbatim>\<open>frameApply(2)\<close> schedule Y twice, at 0 ms
  and at 500 ms. The sample instants are 0 and 500, but the loop over them runs while
  \<^verbatim>\<open>i < _.last(times)\<close> and so leaves the last one out: Y is scheduled once, at 0 ms.
\<close>

theorem frameApply_omits_last_sample:
  "TimingManager (Many [entryY]) (Some ''s'') = Inr (engine0 entryY) \<and>
   register [(''Y'', 1)] None (engine0 entryY) = engine1 entryY \<and>
   times_loop (Num 0) (Num 500) (Num 1000) (Num 0) [] = Some [Num 0, Num 500] \<and>
   frameApply (Some (Num 2)) None (engine1 entryY) =
     Some (None, (engine1 entryY)\<lparr>promises := [0],
              timers := [\<lparr>delay = Num 0, anim = entryY, status = Pending\<rparr>]\<rparr>)"
proof -
  have built: "TimingManager (Many [entryY]) (Some ''s'') = Inr (engine0 entryY)"
    by (simp add: TimingManager_def parse_unit_def engine0_def)
  have reg: "register [(''Y'', 1)] None (engine0 entryY) = engine1 entryY"
    by (simp add: eval_defs)
  have tms: "times_loop (Num 0) (Num 500) (Num 1000) (Num 0) [] = Some [Num 0, Num 500]"
    by (simp add: times_loop.simps fl_vals)
  have frames: "frames_loop (Num 500) (Some (Num 500)) (Num 0) (engine1 entryY) =
      Some ((engine1 entryY)\<lparr>promises := [0],
              timers := [\<lparr>delay = Num 0, anim = entryY, status = Pending\<rparr>]\<rparr>)"
    by (simp add: frames_loop.simps eval_defs)
  have "frameApply (Some (Num 2)) None (engine1 entryY) =
     Some (None, (engine1 entryY)\<lparr>promises := [0],
              timers := [\<lparr>delay = Num 0, anim = entryY, status = Pending\<rparr>]\<rparr>)"
    by (simp add: frameApply_def Let_def ensureNonEmpty_def js_or_def falsy_def toMs_def
        js_max_def fl_vals engine1_sel entryY_def js_last_def tms frames[unfolded entryY_def])
  with built reg tms show ?thesis by simp
qed

text \<open>
  C3. The claim has \<^verbatim>\<open>frameApply(fps)\<close> throw for every \<open>fps \<le> 0\<close>. A negative frame rate
  does throw and leaves the state as it was; the frame rate 0 is replaced by 10, and on
  the engine of C2 the call returns without an exception, having scheduled Y at
  0, 100, ..., 800 ms.
\<close>

theorem frameApply_zero_fps_runs:
  "map_option (\<lambda>r. (fst r, map delay (timers (snd r))))
       (frameApply (Some (Num 0)) None (engine1 entryY)) =
     Some (None, [Num 0, Num 100, Num 200, Num 300, Num 400, Num 500, Num 600, Num 700,
                  Num 800]) \<and>
   frameApply (Some (Num (- 1))) None (engine1 entryY) =
     Some (Some InvalidArgumentError, engine1 entryY)"
proof -
  have tms: "times_loop (Num 0) (Num 100) (Num 1000) (Num 0) [] =
      Some [Num 0, Num 100, Num 200, Num 300, Num 400, Num 500, Num 600, Num 700, Num 800,
            Num 900]"
    by (simp add: times_loop.simps fl_vals)
  have frames:
    "map_option (\<lambda>s. map delay (timers s))
         (frames_loop (Num 100) (Some (Num 900)) (Num 0) (engine1 entryY)) =
       Some [Num 0, Num 100, Num 200, Num 300, Num 400, Num 500, Num 600, Num 700, Num 800]"
    by (simp add: frames_loop.simps eval_defs)
  have zero: "map_option (\<lambda>r. (fst r, map delay (timers (snd r))))
       (frameApply (Some (Num 0)) None (engine1 entryY)) =
     Some (None, [Num 0, Num 100, Num 200, Num 300, Num 400, Num 500, Num 600, Num 700,
                  Num 800])"
    using frames
    by (auto simp: frameApply_def Let_def ensureNonEmpty_def js_or_def falsy_def toMs_def
        js_max_def fl_vals engine1_sel entryY_def js_last_def tms split: option.splits)
  have neg: "frameApply (Some (Num (- 1))) None (engine1 entryY) =
      Some (Some InvalidArgumentError, engine1 entryY)"
    by (simp add: frameApply_def Let_def ensureNonEmpty_def js_or_def falsy_def engine1_sel)
  from zero neg show ?thesis by simp
qed

section \<open>The conversion to milliseconds\<close>

text \<open>
  C9, as claimed: \<^verbatim>\<open>toMs\<close> is linear and multiplies by 60000 for \<^verbatim>\<open>"m"\<close>. In seconds,
  for the numbers \<open>2 ^ 53\<close> and 1, the conversion of the sum is not the sum of the
  conversions. In minutes, for the number nearest to 0.009, the two rounded products
  \<^verbatim>\<open>t * 60 * 1000\<close> do not give the number nearest to 60000 times \<open>t\<close>, which is 540.
\<close>

theorem toMs_not_linear:
  "fl (2 ^ 53) = Num (2 ^ 53) \<and>
   toMs S (js_add (Num (2 ^ 53)) (Num 1)) = Num 9007199254740992000 \<and>
   js_add (toMs S (Num (2 ^ 53))) (toMs S (Num 1)) = Num 9007199254740993024 \<and>
   fl (9 / 1000) = Num (5188146770730811 / 2 ^ 59) \<and>
   toMs M (Num (5188146770730811 / 2 ^ 59)) = Num (4749890231992319 / 8796093022208) \<and>
   fl (5188146770730811 / 2 ^ 59 * 60000) = Num 540"
  by (simp add: toMs_def fl_eval)

text \<open>
  C9, amended. For every valid unit, \<^verbatim>\<open>toMs\<close> maps 0 to 0 and keeps the order
  (\<open>a \<le> b\<close> gives \<open>toMs a \<le> toMs b\<close>). It is the identity for \<^verbatim>\<open>"ms"\<close>, and so additive
  there; for \<^verbatim>\<open>"s"\<close> it is the product by 1000, rounded; for \<^verbatim>\<open>"m"\<close> it is the product
  by 60, rounded, times 1000, rounded. Where these products are exact, the result is
  exactly 1000 times, respectively 60000 times, the argument, and the conversion to
  seconds of an exact sum is the sum of the conversions.
\<close>

theorem toMs_rounded_monotonic:
  "toMs u (Num 0) = Num 0 \<and>
   (js_le a b \<longrightarrow> js_le (toMs u a) (toMs u b)) \<and>
   (parse_unit ''ms'' = Some Ms \<and> toMs Ms a = a \<and>
    toMs Ms (js_add a b) = js_add (toMs Ms a) (toMs Ms b)) \<and>
   (parse_unit ''s'' = Some S \<and> toMs S (Num x) = fl (x * 1000)) \<and>
   (parse_unit ''m'' = Some M \<and> toMs M (Num x) = js_mul (fl (x * 60)) (Num 1000)) \<and>
   (fl (x * 1000) = Num (x * 1000) \<longrightarrow> toMs S (Num x) = Num (1000 * x)) \<and>
   (fl (x * 60) = Num (x * 60) \<and> fl (x * 60000) = Num (x * 60000) \<longrightarrow>
      toMs M (Num x) = Num (60000 * x)) \<and>
   (fl (x + y) = Num (x + y) \<and> fl (x * 1000) = Num (x * 1000) \<and>
    fl (y * 1000) = Num (y * 1000) \<longrightarrow>
      toMs S (js_add (Num x) (Num y)) = js_add (toMs S (Num x)) (toMs S (Num y)))"
proof -
  have zero: "toMs u (Num 0) = Num 0"
    by (cases u) (simp_all add: toMs_def fl_vals)
  have mono: "js_le a b \<longrightarrow> js_le (toMs u a) (toMs u b)"
    by (simp add: toMs_mono)
  have units: "parse_unit ''ms'' = Some Ms" "parse_unit ''s'' = Some S" "parse_unit ''m'' = Some M"
    by (simp_all add: parse_unit_def)
  have ms: "toMs Ms a = a" "toMs Ms (js_add a b) = js_add (toMs Ms a) (toMs Ms b)"
    by (simp_all add: toMs_def)
  have s: "toMs S (Num x) = fl (x * 1000)"
    and m: "toMs M (Num x) = js_mul (fl (x * 60)) (Num 1000)"
    by (simp_all add: toMs_def)
  have exact_s: "fl (x * 1000) = Num (x * 1000) \<longrightarrow> toMs S (Num x) = Num (1000 * x)"
    by (simp add: toMs_def mult.commute)
  have exact_m: "fl (x * 60) = Num (x * 60) \<and> fl (x * 60000) = Num (x * 60000) \<longrightarrow>
      toMs M (Num x) = Num (60000 * x)"
    by (simp add: toMs_def mult.commute)
  have add_s: "fl (x + y) = Num (x + y) \<and> fl (x * 1000) = Num (x * 1000) \<and>
    fl (y * 1000) = Num (y * 1000) \<longrightarrow>
      toMs S (js_add (Num x) (Num y)) = js_add (toMs S (Num x)) (toMs S (Num y))"
    by (simp add: toMs_def distrib_right)
  from zero mono units ms s m exact_s exact_m add_s show ?thesis by blast
qed

theorem toMs_rounded_monotonic_witness:
  "js_le (Num 2) (Num 3) \<and> js_le (toMs M (Num 2)) (toMs M (Num 3)) \<and>
   fl (2 * 1000) = Num (2 * 1000) \<and> toMs S (Num 2) = Num 2000 \<and>
   fl (2 * 60) = Num (2 * 60) \<and> fl (2 * 60000) = Num (2 * 60000) \<and>
   toMs M (Num 2) = Num 120000 \<and>
   fl (2 + 3) = Num (2 + 3) \<and> fl (3 * 1000) = Num (3 * 1000) \<and>
   toMs S (js_add (Num 2) (Num 3)) = js_add (toMs S (Num 2)) (toMs S (Num 3))"
  using toMs_rounded_monotonic [of M "Num 2" "Num 3" 2 3]
  by (simp add: fl_vals toMs_def)

section \<open>The registry\<close>

lemma map_of_assign: "map_of (assign k v cbs) l = (if l = k then Some v else map_of cbs l)"
  by (induction cbs) auto

lemma js_get_assign: "js_get (assign k v cbs) l = (if l = k then Own v else js_get cbs l)"
  by (simp add: js_get_def map_of_assign)


lemma register_loop_absent:
  "l \<notin> fst ` set fns \<Longrightarrow> map_of (register_loop fns ow cbs) l = map_of cbs l"
  by (induction fns ow cbs rule: register_loop.induct) (auto simp: map_of_assign)

lemma register_loop_present:
  "distinct (map fst fns) \<Longrightarrow> map_of fns l = Some v \<Longrightarrow>
   map_of (register_loop fns ow cbs) l =
     (if js_get cbs l = Undefined \<or> truthy ow then Some v else map_of cbs l)"
proof (induction fns ow cbs rule: register_loop.induct)
  case (1 ow cbs)
  then show ?case by simp
next
  case (2 f w fns ow cbs)
  show ?case
  proof (cases "l = f")
    case True
    then have "v = w" using 2 by simp
    moreover have "l \<notin> fst ` set fns" using True 2 by simp
    ultimately show ?thesis
      using True by (simp add: register_loop_absent map_of_assign)
  next
    case False
    then show ?thesis using 2 by (simp add: map_of_assign js_get_assign)
  qed
qed

lemma register_lookup:
  assumes "distinct (map fst fns)"
  shows "map_of (callbacks (register fns ow st)) l =
           (case map_of fns l of
              None \<Rightarrow> map_of (callbacks st) l
            | Some v \<Rightarrow> if js_get (callbacks st) l = Undefined \<or> truthy ow then Some v
                         else map_of (callbacks st) l)"
proof (cases "map_of fns l")
  case None
  then have "l \<notin> fst ` set fns" by (simp add: map_of_eq_None_iff)
  then show ?thesis using None by (simp add: register_def register_loop_absent)
next
  case (Some v)
  then show ?thesis using assms by (simp add: register_def register_loop_present)
qed




section \<open>The active-interval query\<close>




section \<open>Playback with an empty registry\<close>

text \<open>
  C6. When the registry is empty, \<^verbatim>\<open>play\<close> and \<^verbatim>\<open>frameApply\<close> throw the error of
  \<^verbatim>\<open>ensureNonEmpty\<close> and leave the whole state, so also the outstanding promises, as it
  was.
\<close>

theorem empty_registry_fails:
  assumes "callbacks st = []"
  shows "play t st = (Some InvalidStateError, st) \<and>
         frameApply fps t st = Some (Some InvalidStateError, st)"
  using assms by (simp add: play_def frameApply_def ensureNonEmpty_def)

theorem empty_registry_fails_witness:
  "callbacks (engine0 entryX) = [] \<and>
   play None (engine0 entryX) = (Some InvalidStateError, engine0 entryX) \<and>
   frameApply (Some (Num 2)) None (engine0 entryX) =
     Some (Some InvalidStateError, engine0 entryX)"
  using empty_registry_fails [of "engine0 entryX" None "Some (Num 2)"]
  by (simp add: engine0_def)

section \<open>The frame rate 0\<close>

text \<open>
  C10. \<^verbatim>\<open>frameApply(0, d)\<close> is \<^verbatim>\<open>frameApply(10, d)\<close>: \<^verbatim>\<open>fps || 10\<close> replaces the falsy 0
  by 10 before \<^verbatim>\<open>fps <= 0\<close> is tested. With a registry that is not empty the call is the
  two loops run with an increment of 100 ms, and when it returns it has thrown nothing.
  On the engine of C2 it returns, having scheduled Y at 0, 100, ..., 800 ms.
\<close>

theorem frameApply_zero_fps_is_default:
  "frameApply (Some (Num 0)) d st = frameApply (Some (Num 10)) d st \<and>
   (callbacks st \<noteq> [] \<longrightarrow>
      frameApply (Some (Num 0)) d st =
        (case times_loop (toMs (timeUnit st) (js_or d (Num 0))) (Num 100)
                (foldl (\<lambda>m info. js_max m (toMs (timeUnit st)
                                             (js_add (start info) (durn info))))
                   (Num 0) (timingInfo st))
                (Num 0) [] of
           None \<Rightarrow> None
         | Some tms \<Rightarrow>
             (case frames_loop (Num 100) (js_last tms)
                     (toMs (timeUnit st) (js_or d (Num 0))) st of
                None \<Rightarrow> None
              | Some st' \<Rightarrow> Some (None, st'))) \<and>
      (\<forall>r. frameApply (Some (Num 0)) d st = Some r \<longrightarrow> fst r = None)) \<and>
   frameApply (Some (Num 0)) None (engine1 entryY) =
     Some (None, (engine1 entryY)\<lparr>promises := [0, 1, 2, 3, 4, 5, 6, 7, 8],
              timers := map (\<lambda>d. \<lparr>delay = d, anim = entryY, status = Pending\<rparr>)
                          [Num 0, Num 100, Num 200, Num 300, Num 400, Num 500, Num 600,
                           Num 700, Num 800]\<rparr>)"
proof -
  have fps: "js_or (Some (Num 0)) (Num 10) = Num 10" "js_or (Some (Num 10)) (Num 10) = Num 10"
    by (simp_all add: js_or_def falsy_def)
  have eq: "frameApply (Some (Num 0)) d st = frameApply (Some (Num 10)) d st"
    by (cases "ensureNonEmpty st") (simp_all add: frameApply_def fps)
  have unfold: "frameApply (Some (Num 0)) d st =
        (case times_loop (toMs (timeUnit st) (js_or d (Num 0))) (Num 100)
                (foldl (\<lambda>m info. js_max m (toMs (timeUnit st)
                                             (js_add (start info) (durn info))))
                   (Num 0) (timingInfo st))
                (Num 0) [] of
           None \<Rightarrow> None
         | Some tms \<Rightarrow>
             (case frames_loop (Num 100) (js_last tms)
                     (toMs (timeUnit st) (js_or d (Num 0))) st of
                None \<Rightarrow> None
              | Some st' \<Rightarrow> Some (None, st')))"
    if "callbacks st \<noteq> []"
    using that by (simp add: frameApply_def ensureNonEmpty_def fps fl_vals Let_def)
  have noerr: "fst r = None" if "callbacks st \<noteq> []" "frameApply (Some (Num 0)) d st = Some r" for r
    using frameApply_error_cases[of "Some (Num 0)" d st "fst r" "snd r"] that
    by (simp add: fps)
  have tms: "times_loop (Num 0) (Num 100) (Num 1000) (Num 0) [] =
      Some [Num 0, Num 100, Num 200, Num 300, Num 400, Num 500, Num 600, Num 700, Num 800,
            Num 900]"
    by (simp add: times_loop.simps fl_vals)
  have frames: "frames_loop (Num 100) (Some (Num 900)) (Num 0) (engine1 entryY) =
      Some ((engine1 entryY)\<lparr>promises := [0, 1, 2, 3, 4, 5, 6, 7, 8],
              timers := map (\<lambda>d. \<lparr>delay = d, anim = entryY, status = Pending\<rparr>)
                          [Num 0, Num 100, Num 200, Num 300, Num 400, Num 500, Num 600,
                           Num 700, Num 800]\<rparr>)"
    by (simp add: frames_loop.simps eval_defs)
  have run: "frameApply (Some (Num 0)) None (engine1 entryY) =
     Some (None, (engine1 entryY)\<lparr>promises := [0, 1, 2, 3, 4, 5, 6, 7, 8],
              timers := map (\<lambda>d. \<lparr>delay = d, anim = entryY, status = Pending\<rparr>)
                          [Num 0, Num 100, Num 200, Num 300, Num 400, Num 500, Num 600,
                           Num 700, Num 800]\<rparr>)"
    by (simp add: frameApply_def Let_def ensureNonEmpty_def js_or_def falsy_def toMs_def
        js_max_def fl_vals engine1_sel entryY_def js_last_def tms frames[unfolded entryY_def])
  from eq unfold noerr run show ?thesis by blast
qed

theorem frameApply_zero_fps_is_default_witness:
  "callbacks (engine1 entryY) \<noteq> [] \<and>
   frameApply (Some (Num 0)) None (engine1 entryY) =
     frameApply (Some (Num 10)) None (engine1 entryY) \<and>
   frameApply (Some (Num 10)) None (engine1 entryY) =
     Some (None, (engine1 entryY)\<lparr>promises := [0, 1, 2, 3, 4, 5, 6, 7, 8],
              timers := map (\<lambda>d. \<lparr>delay = d, anim = entryY, status = Pending\<rparr>)
                          [Num 0, Num 100, Num 200, Num 300, Num 400, Num 500, Num 600,
                           Num 700, Num 800]\<rparr>) \<and>
   fst (None :: error option, (engine1 entryY)\<lparr>promises := [0, 1, 2, 3, 4, 5, 6, 7, 8],
              timers := map (\<lambda>d. \<lparr>delay = d, anim = entryY, status = Pending\<rparr>)
                          [Num 0, Num 100, Num 200, Num 300, Num 400, Num 500, Num 600,
                           Num 700, Num 800]\<rparr>) = None"
proof -
  have c: "callbacks (engine1 entryY) \<noteq> []" by (simp add: engine1_sel)
  from frameApply_zero_fps_is_default [of None "engine1 entryY"]
  have a: "frameApply (Some (Num 0)) None (engine1 entryY) =
      frameApply (Some (Num 10)) None (engine1 entryY)"
    and b: "frameApply (Some (Num 0)) None (engine1 entryY) =
     Some (None, (engine1 entryY)\<lparr>promises := [0, 1, 2, 3, 4, 5, 6, 7, 8],
              timers := map (\<lambda>d. \<lparr>delay = d, anim = entryY, status = Pending\<rparr>)
                          [Num 0, Num 100, Num 200, Num 300, Num 400, Num 500, Num 600,
                           Num 700, Num 800]\<rparr>)"
    by blast+
  from a b have "frameApply (Some (Num 10)) None (engine1 entryY) =
     Some (None, (engine1 entryY)\<lparr>promises := [0, 1, 2, 3, 4, 5, 6, 7, 8],
              timers := map (\<lambda>d. \<lparr>delay = d, anim = entryY, status = Pending\<rparr>)
                          [Num 0, Num 100, Num 200, Num 300, Num 400, Num 500, Num 600,
                           Num 700, Num 800]\<rparr>)"
    by simp
  with a c show ?thesis by simp
qed

section \<open>When the action of a promise is looked up\<close>

text \<open>
  C4, as claimed: a promise in flight calls the action that was registered when it was
  scheduled. On the engine of C1, \<^verbatim>\<open>play(0)\<close> is called while X is bound to action 1,
  X is then rebound to action 2 with \<^verbatim>\<open>overwrite\<close>, and the promise fires: it calls
  action 2.
\<close>

theorem overwrite_reaches_inflight_operation:
  "map_of (callbacks (snd (play (Some (Num 0)) (engine1 entryX)))) ''X'' = Some 1 \<and>
   map_option calls
       (run [Play (Some (Num 0)), Register [(''X'', 2)] (Some True), Fire 0] (engine1 entryX)) =
     Some [(0, 2, entryX)]"
  by (simp add: eval_defs Let_def)

text \<open>
  C4, amended. A promise captures its entry when it is scheduled and looks the label of
  the entry up in the registry when it fires: if \<^verbatim>\<open>register(fns, true)\<close> rebinds the
  label of a pending promise to \<open>g\<close> before the promise fires, the promise calls \<open>g\<close>
  on its entry.
\<close>

theorem fire_resolves_label_when_fired:
  assumes "h < length (timers st)"
    and "status (timers st ! h) = Pending"
    and "distinct (map fst fns)"
    and "map_of fns (label (anim (timers st ! h))) = Some g"
  shows "calls (fire h (register fns (Some True) st)) = calls st @ [(h, g, anim (timers st ! h))]"
proof -
  have "map_of (callbacks (register fns (Some True) st)) (label (anim (timers st ! h))) = Some g"
    using register_lookup[OF assms(3), of "Some True" st "label (anim (timers st ! h))"] assms(4)
    by (simp add: truthy_def)
  then have "js_get (callbacks (register fns (Some True) st)) (label (anim (timers st ! h))) = Own g"
    by (simp add: js_get_def)
  moreover have "timers (register fns (Some True) st) = timers st"
    and "calls (register fns (Some True) st) = calls st"
    by (simp_all add: register_def)
  ultimately show ?thesis
    using assms(1,2) by (simp add: fire_def Let_def)
qed

theorem fire_resolves_label_when_fired_witness:
  "0 < length (timers (snd (play (Some (Num 0)) (engine1 entryX)))) \<and>
   status (timers (snd (play (Some (Num 0)) (engine1 entryX))) ! 0) = Pending \<and>
   distinct (map fst [(''X'', 2::nat)]) \<and>
   map_of [(''X'', 2::nat)]
     (label (anim (timers (snd (play (Some (Num 0)) (engine1 entryX))) ! 0))) = Some 2 \<and>
   calls (fire 0 (register [(''X'', 2)] (Some True) (snd (play (Some (Num 0)) (engine1 entryX))))) =
     [(0, 2, entryX)]"
  using fire_resolves_label_when_fired
    [of 0 "snd (play (Some (Num 0)) (engine1 entryX))" "[(''X'', 2)]" 2]
  by (simp add: eval_defs)

section \<open>Cancellation\<close>

lemma length_cancel_timer [simp]: "length (cancel_timer ts h) = length ts"
  by (simp add: cancel_timer_def)

lemma length_foldl_cancel_timer [simp]: "length (foldl cancel_timer ts hs) = length ts"
  by (induction hs arbitrary: ts) simp_all

lemma status_cancel_timer:
  "k < length ts \<Longrightarrow>
   status (cancel_timer ts h ! k) =
     (if k = h \<and> status (ts ! k) = Pending then Cancelled else status (ts ! k))"
  by (auto simp: cancel_timer_def nth_list_update)

lemma status_foldl_cancel_timer:
  "k < length ts \<Longrightarrow>
   status (foldl cancel_timer ts hs ! k) =
     (if k \<in> set hs \<and> status (ts ! k) = Pending then Cancelled else status (ts ! k))"
  by (induction hs arbitrary: ts) (auto simp: status_cancel_timer)

lemma playFrame_cases:
  "playFrame a d s = schedule d a s \<or> (\<exists>m. playFrame a d s = warn m s)"
  unfolding playFrame_def
  by (cases "js_get (callbacks s) (label a) \<noteq> Undefined") (simp, metis)

lemma tracked_playFrame: "tracked s \<Longrightarrow> tracked (playFrame a d s)"
  using playFrame_cases[of a d s]
  by (auto simp: tracked_def schedule_def warn_def nth_append less_Suc_eq)

lemma tracked_register: "tracked s \<Longrightarrow> tracked (register fns ow s)"
  by (simp add: tracked_def register_def)

lemma tracked_cancel: "tracked s \<Longrightarrow> tracked (cancel s)"
  by (auto simp: tracked_def cancel_def status_foldl_cancel_timer)

lemma tracked_fire: "tracked s \<Longrightarrow> tracked (fire h s)"
  by (auto simp: tracked_def fire_def Let_def nth_list_update split: found.splits)

lemma tracked_TimingManager: "TimingManager ti u = Inr st0 \<Longrightarrow> tracked st0"
  by (auto simp: TimingManager_def tracked_def Let_def split: option.splits)

lemma settled_playFrame: "settled n old s \<Longrightarrow> settled n old (playFrame a d s)"
  using playFrame_cases[of a d s]
  by (auto simp: settled_def schedule_def warn_def nth_append)

lemma settled_register: "settled n old s \<Longrightarrow> settled n old (register fns ow s)"
  by (simp add: settled_def register_def)

lemma settled_cancel: "settled n old s \<Longrightarrow> settled n old (cancel s)"
  by (auto simp: settled_def cancel_def status_foldl_cancel_timer)

lemma settled_fire: "settled n old s \<Longrightarrow> settled n old (fire h s)"
proof (cases "h < length (timers s) \<and> status (timers s ! h) = Pending")
  case False
  assume "settled n old s"
  with False show ?thesis by (auto simp: fire_def)
next
  case True
  assume s: "settled n old s"
  with True have "n \<le> h" by (metis settled_def not_le)
  with s True show ?thesis
    by (auto simp: settled_def fire_def Let_def nth_list_update split: found.splits)
qed

lemma settled_after_cancel:
  "tracked st \<Longrightarrow> settled (length (timers st)) (calls st) (cancel st)"
  by (auto simp: tracked_def settled_def cancel_def status_foldl_cancel_timer)

text \<open>
  C7. \<^verbatim>\<open>cancel()\<close> leaves \<^verbatim>\<open>promises\<close> empty; it changes nothing when \<^verbatim>\<open>promises\<close> is
  empty already, and a second \<^verbatim>\<open>cancel()\<close> changes nothing more. No promise that
  \<^verbatim>\<open>promises\<close> referenced is pending afterwards. For an engine in any state it can
  reach from its construction: whatever happens after \<^verbatim>\<open>cancel()\<close> (calls of the
  methods, the host trying to fire any promise), every call of an action made from then
  on comes from a promise created after the \<^verbatim>\<open>cancel()\<close>; a promise that had not
  fired when \<^verbatim>\<open>cancel()\<close> was called never calls its action. What happens after
  \<^verbatim>\<open>cancel()\<close> always runs to its end when it has no call of \<^verbatim>\<open>frameApply\<close>, the one
  method that can fail to return.
\<close>

theorem cancel_clears_outstanding:
  "promises (cancel st) = [] \<and>
   (promises st = [] \<longrightarrow> cancel st = st) \<and>
   cancel (cancel st) = cancel st \<and>
   (\<forall>h \<in> set (promises st). h < length (timers st) \<longrightarrow>
      status (timers (cancel st) ! h) \<noteq> Pending) \<and>
   (TimingManager ti u = Inr st0 \<and> run evs0 st0 = Some st \<longrightarrow>
      (\<forall>st'. run evs (cancel st) = Some st' \<longrightarrow>
         (\<exists>cs. calls st' = calls st @ cs \<and> (\<forall>c \<in> set cs. length (timers st) \<le> fst c))) \<and>
      (\<not> list_ex is_frameApply evs \<longrightarrow> (\<exists>st'. run evs (cancel st) = Some st')))"
proof -
  have 1: "promises (cancel st) = []" by (simp add: cancel_def)
  have 2: "promises st = [] \<longrightarrow> cancel st = st" by (simp add: cancel_def)
  have 3: "cancel (cancel st) = cancel st" by (simp add: cancel_def)
  have 4: "\<forall>h \<in> set (promises st). h < length (timers st) \<longrightarrow>
      status (timers (cancel st) ! h) \<noteq> Pending"
    by (simp add: cancel_def status_foldl_cancel_timer)
  have 5: "\<exists>cs. calls st' = calls st @ cs \<and> (\<forall>c \<in> set cs. length (timers st) \<le> fst c)"
    if built: "TimingManager ti u = Inr st0" and reach: "run evs0 st0 = Some st"
      and after: "run evs (cancel st) = Some st'" for st'
  proof -
    have "tracked st"
      using run_inv[of tracked evs0 st0 st, OF tracked_playFrame tracked_register tracked_cancel
          tracked_fire reach tracked_TimingManager[OF built]]
      by simp
    then have "settled (length (timers st)) (calls st) (cancel st)"
      by (rule settled_after_cancel)
    then have "settled (length (timers st)) (calls st) st'"
      using run_inv[of "settled (length (timers st)) (calls st)" evs "cancel st" st',
          OF settled_playFrame settled_register settled_cancel settled_fire after]
      by blast
    then show ?thesis by (auto simp: settled_def)
  qed
  have 6: "\<not> list_ex is_frameApply evs \<longrightarrow> (\<exists>st'. run evs (cancel st) = Some st')"
    using run_returns[of evs "cancel st"] by blast
  from 1 2 3 4 5 6 show ?thesis by blast
qed

theorem cancel_clears_outstanding_witness:
  "TimingManager (Many [entryX]) (Some ''s'') = Inr (engine0 entryX) \<and>
   run [Register [(''X'', 1)] None, Play None] (engine0 entryX) =
     Some (snd (play None (engine1 entryX))) \<and>
   promises (snd (play None (engine1 entryX))) = [0] \<and>
   0 < length (timers (snd (play None (engine1 entryX)))) \<and>
   status (timers (snd (play None (engine1 entryX))) ! 0) = Pending \<and>
   status (timers (cancel (snd (play None (engine1 entryX)))) ! 0) \<noteq> Pending \<and>
   \<not> list_ex is_frameApply [Fire 0, Fire 0 :: nat event] \<and>
   (\<exists>st'. run [Fire 0, Fire 0] (cancel (snd (play None (engine1 entryX)))) = Some st' \<and>
      calls st' = []) \<and>
   promises (engine1 entryX) = [] \<and> cancel (engine1 entryX) = engine1 entryX"
  using cancel_clears_outstanding [of "snd (play None (engine1 entryX))" "Many [entryX]"
      "Some ''s''" "engine0 entryX" "[Register [(''X'', 1)] None, Play None]" "[Fire 0, Fire 0]"]
    cancel_clears_outstanding [of "engine1 entryX"]
  by (simp add: eval_defs Let_def)

end
